theory Spec2Isabelle
  imports Main "HOL-Library.Sublist"
begin

section \<open>Wave-U-Net with dilated convolutions: assembly and forward pass\<close>

text \<open>
  A shallow embedding of \<^verbatim>\<open>src/models/unet_dilation.py\<close>: the constructor
  \<^verbatim>\<open>UNet.__init__\<close>, which derives every layer's parameters from a few
  hyperparameters, and \<^verbatim>\<open>UNet.forward\<close>, which runs the encoder, the bottleneck
  and the decoder with skip connections.

  Python integers that count layers, channels, kernel taps or samples are modelled as
  \<open>nat\<close>: the constructor is only meaningful for non-negative values and no subtraction
  in the source can go below zero inside its loops. Exceptions are values of \<open>error\<close>.
\<close>

subsection \<open>Errors\<close>

datatype error =
    TypeError    \<comment> \<open>subscripting \<^verbatim>\<open>None\<close>\<close>
  | ValueError   \<comment> \<open>\<^verbatim>\<open>list.index\<close> of an absent element\<close>
  | IndexError   \<comment> \<open>list index out of range\<close>
  | ShapeError   \<comment> \<open>the tensor library's \<^verbatim>\<open>RuntimeError\<close> on incompatible shapes\<close>

subsection \<open>Dilation configuration\<close>

text \<open>
  \<^verbatim>\<open>dilation_in_encoder\<close> and \<^verbatim>\<open>dilation_in_decoder\<close> are dictionaries with the two
  keys \<^verbatim>\<open>"layers"\<close> and \<^verbatim>\<open>"dilated_rates"\<close>, or \<^verbatim>\<open>None\<close> (the default).
\<close>

record DilationConfig =
  layers :: "nat list"
  dilated_rates :: "nat list"

text \<open>\<^verbatim>\<open>xs.index(v)\<close>: the first position of \<open>v\<close>, \<^verbatim>\<open>ValueError\<close> when there is none.\<close>

fun list_index :: "nat list \<Rightarrow> nat \<Rightarrow> nat option" where
  "list_index [] v = None"
| "list_index (x # xs) v =
     (if x = v then Some 0 else map_option Suc (list_index xs v))"

text \<open>
  Lines 60--63 and 95--99: the body that sets \<^verbatim>\<open>dilated_rate\<close> in iteration \<open>i\<close>
  of either construction loop. The variable stays \<^verbatim>\<open>None\<close> when layer \<open>i + 1\<close> is
  not listed.
\<close>

definition dilated_rate_of :: "DilationConfig option \<Rightarrow> nat \<Rightarrow> error + nat option" where
  "dilated_rate_of dil i =
     (case dil of
        None \<Rightarrow> Inl TypeError
      | Some c \<Rightarrow>
          if i + 1 \<in> set (layers c) then
            (case list_index (layers c) (i + 1) of
               None \<Rightarrow> Inl ValueError
             | Some j \<Rightarrow>
                 if j < length (dilated_rates c) then Inr (Some (dilated_rates c ! j))
                 else Inl IndexError)
          else Inr None)"

text \<open>\<^verbatim>\<open>dilated_rate if dilated_rate else 1\<close>: \<^verbatim>\<open>None\<close> and \<^verbatim>\<open>0\<close> are both falsy.\<close>

definition rate_or_1 :: "nat option \<Rightarrow> nat" where
  "rate_or_1 r = (case r of None \<Rightarrow> 1 | Some d \<Rightarrow> if d \<noteq> 0 then d else 1)"

subsection \<open>Same padding\<close>

text \<open>
  Modelled from the spec: \<^verbatim>\<open>utils.utils.calculate_same_padding\<close> is imported by the
  source but its definition is not part of it. The specification describes it as the
  symmetric padding that preserves the sequence length under a strided dilated
  convolution whose effective receptive field is \<open>dilation * (kernel_size - 1) + 1\<close>,
  a non-negative integer. A convolution maps a length \<open>l\<close> to
  \<open>(l + 2 p - dilation (kernel_size - 1) - 1) div stride + 1\<close>; the least \<open>p\<close> for which
  this is at least \<open>l_in\<close> is half of
  \<open>(l_in - 1) stride + 1 + dilation (kernel_size - 1) - l_in\<close>, rounded up.
\<close>

definition calculate_same_padding :: "nat \<Rightarrow> nat \<Rightarrow> nat \<Rightarrow> nat \<Rightarrow> nat" where
  "calculate_same_padding l_in k s d =
     nat (((int l_in - 1) * int s + 1 + int d * (int k - 1) - int l_in + 1) div 2)"

subsection \<open>Layers\<close>

text \<open>The arguments of \<^verbatim>\<open>nn.Conv1d\<close>.\<close>

record Conv1d =
  in_channels :: nat
  out_channels :: nat
  kernel_size :: nat
  stride :: nat
  padding :: nat
  dilation :: nat

text \<open>
  \<^verbatim>\<open>nn.Sequential(Conv1d, BatchNorm1d, LeakyReLU)\<close>, the body of
  \<^verbatim>\<open>DownSamplingLayer\<close>, of \<^verbatim>\<open>UpSamplingLayer\<close> and of the bottleneck. The layers
  differ in whether the activation works in place.
\<close>

record ConvBlock =
  conv :: Conv1d
  num_features :: nat
  inplace :: bool

definition DownSamplingLayer :: "nat \<Rightarrow> nat \<Rightarrow> nat \<Rightarrow> nat \<Rightarrow> nat \<Rightarrow> nat \<Rightarrow> ConvBlock" where
  "DownSamplingLayer c_in c_out d k s p =
     \<lparr>conv = \<lparr>in_channels = c_in, out_channels = c_out, kernel_size = k,
              stride = s, padding = p, dilation = d\<rparr>,
      num_features = c_out, inplace = False\<rparr>"

definition UpSamplingLayer :: "nat \<Rightarrow> nat \<Rightarrow> nat \<Rightarrow> nat \<Rightarrow> nat \<Rightarrow> nat \<Rightarrow> ConvBlock" where
  "UpSamplingLayer c_in c_out d k s p =
     \<lparr>conv = \<lparr>in_channels = c_in, out_channels = c_out, kernel_size = k,
              stride = s, padding = p, dilation = d\<rparr>,
      num_features = c_out, inplace = True\<rparr>"

subsection \<open>Channel plan (lines 53, 54 and 87--90)\<close>

definition encoder_in_channels_list :: "nat \<Rightarrow> nat \<Rightarrow> nat list" where
  "encoder_in_channels_list n ci = [1] @ map (\<lambda>i. i * ci) [1..<n]"

definition encoder_out_channels_list :: "nat \<Rightarrow> nat \<Rightarrow> nat list" where
  "encoder_out_channels_list n ci = map (\<lambda>i. i * ci) [1..<n + 1]"

definition decoder_in_channels_list :: "nat \<Rightarrow> nat \<Rightarrow> nat list" where
  "decoder_in_channels_list n ci =
     rev (map (\<lambda>i. (2 * i + 1) * ci) [1..<n] @ [2 * n * ci])"

definition decoder_out_channels_list :: "nat \<Rightarrow> nat \<Rightarrow> nat list" where
  "decoder_out_channels_list n ci = rev (encoder_out_channels_list n ci)"

subsection \<open>Assembly: \<^verbatim>\<open>UNet.__init__\<close>\<close>

record UNet =
  n_layers :: nat
  channels_interval :: nat
  encoder :: "ConvBlock list"
  middle :: ConvBlock
  decoder :: "ConvBlock list"
  out :: Conv1d

text \<open>
  The \<^verbatim>\<open>l_in\<close> argument handed to \<^verbatim>\<open>calculate_same_padding\<close> in iteration \<open>i\<close> of
  the encoder loop (line 72) and of the decoder loop (line 108).
\<close>

definition encoder_padding_l_in :: "nat \<Rightarrow> nat \<Rightarrow> nat \<Rightarrow> nat" where
  "encoder_padding_l_in n ci i = encoder_in_channels_list n ci ! i"

definition decoder_padding_l_in :: "nat \<Rightarrow> nat \<Rightarrow> nat \<Rightarrow> nat" where
  "decoder_padding_l_in n ci i = encoder_in_channels_list n ci ! i"

text \<open>
  One iteration of the encoder loop (lines 60--78) and of the decoder loop
  (lines 95--114). The channel lists have \<open>n\<close> entries when \<open>n \<ge> 1\<close> and the loops run
  over \<open>range(n)\<close>, so their subscripts are always in range.
\<close>

definition encoder_layer ::
  "nat \<Rightarrow> nat \<Rightarrow> nat \<Rightarrow> DilationConfig option \<Rightarrow> nat \<Rightarrow> error + ConvBlock" where
  "encoder_layer n ci k_enc dil i =
     (case dilated_rate_of dil i of
        Inl e \<Rightarrow> Inl e
      | Inr dilated_rate \<Rightarrow>
          Inr (DownSamplingLayer
                 (encoder_in_channels_list n ci ! i)
                 (encoder_out_channels_list n ci ! i)
                 (rate_or_1 dilated_rate)
                 k_enc
                 1
                 (calculate_same_padding (encoder_padding_l_in n ci i) k_enc 1
                    (rate_or_1 dilated_rate))))"

definition decoder_layer ::
  "nat \<Rightarrow> nat \<Rightarrow> nat \<Rightarrow> DilationConfig option \<Rightarrow> nat \<Rightarrow> error + ConvBlock" where
  "decoder_layer n ci k_dec dil i =
     (case dilated_rate_of dil i of
        Inl e \<Rightarrow> Inl e
      | Inr dilated_rate \<Rightarrow>
          Inr (UpSamplingLayer
                 (decoder_in_channels_list n ci ! i)
                 (decoder_out_channels_list n ci ! i)
                 (rate_or_1 dilated_rate)
                 k_dec
                 1
                 (calculate_same_padding (decoder_padding_l_in n ci i) k_dec 1
                    (rate_or_1 dilated_rate))))"

text \<open>
  A \<^verbatim>\<open>for i in range(n)\<close> loop that appends one module per iteration and stops at the
  first exception.
\<close>

fun module_list :: "(nat \<Rightarrow> error + 'a) \<Rightarrow> nat list \<Rightarrow> error + 'a list" where
  "module_list f [] = Inr []"
| "module_list f (i # is) =
     (case f i of
        Inl e \<Rightarrow> Inl e
      | Inr b \<Rightarrow> (case module_list f is of Inl e \<Rightarrow> Inl e | Inr bs \<Rightarrow> Inr (b # bs)))"

text \<open>
  The constructor. The two \<^verbatim>\<open>print\<close> calls of lines 45--49 have no effect on the
  result and are left out. Defaults of the source: \<open>n_layers = 12\<close>,
  \<open>channels_interval = 24\<close>, kernel sizes 15 and 5, both dilation configurations
  \<^verbatim>\<open>None\<close>.
\<close>

definition UNet_init ::
  "nat \<Rightarrow> nat \<Rightarrow> nat \<Rightarrow> nat \<Rightarrow> DilationConfig option \<Rightarrow> DilationConfig option \<Rightarrow> error + UNet" where
  "UNet_init n ci k_enc k_dec dil_enc dil_dec =
     (case module_list (encoder_layer n ci k_enc dil_enc) [0..<n] of
        Inl e \<Rightarrow> Inl e
      | Inr enc \<Rightarrow>
          (case module_list (decoder_layer n ci k_dec dil_dec) [0..<n] of
             Inl e \<Rightarrow> Inl e
           | Inr dec \<Rightarrow>
               Inr \<lparr>n_layers = n,
                    channels_interval = ci,
                    encoder = enc,
                    middle = \<lparr>conv = \<lparr>in_channels = n * ci, out_channels = n * ci,
                                      kernel_size = 15, stride = 1, padding = 7,
                                      dilation = 1\<rparr>,
                              num_features = n * ci, inplace = True\<rparr>,
                    decoder = dec,
                    out = \<lparr>in_channels = 1 + ci, out_channels = 1, kernel_size = 1,
                           stride = 1, padding = 0, dilation = 1\<rparr>\<rparr>))"

subsection \<open>Tensors and the store\<close>

text \<open>
  The primitives of the tensor library are outside the model: a tensor carries its
  shape \<open>[batch, channels, len]\<close> and, for its samples, a term that records which
  primitives produced them from caller-supplied data. Two tensors with the same term
  and shape hold the same samples.
\<close>

datatype contents =
    Given nat
  | Conv Conv1d contents
  | BatchNorm nat contents
  | LeakyReLU contents
  | EverySecond contents
  | Interpolate nat contents
  | Cat contents contents
  | Tanh contents

record tensor =
  batch :: nat
  channels :: nat
  len :: nat
  contents :: contents

text \<open>
  \<^verbatim>\<open>nn.Conv1d\<close> applied to a tensor: the channel count must match, the padded
  input must cover the dilated kernel, and the output has
  \<open>(len + 2 padding - dilation (kernel_size - 1) - 1) div stride + 1\<close> samples.
\<close>

definition conv1d :: "Conv1d \<Rightarrow> tensor \<Rightarrow> error + tensor" where
  "conv1d c t =
     (if channels t \<noteq> in_channels c \<or> kernel_size c = 0 \<or> stride c = 0
         \<or> len t + 2 * padding c < dilation c * (kernel_size c - 1) + 1
      then Inl ShapeError
      else Inr \<lparr>batch = batch t, channels = out_channels c,
                len = (len t + 2 * padding c - dilation c * (kernel_size c - 1) - 1)
                        div stride c + 1,
                contents = Conv c (contents t)\<rparr>)"

text \<open>
  \<^verbatim>\<open>nn.BatchNorm1d\<close>, normalising with its running statistics, as at inference: the
  result is a new tensor of the same shape. (In training mode the library
  additionally refuses an input with a single value per channel; that mode is not
  modelled.)
\<close>

definition batch_norm1d :: "nat \<Rightarrow> tensor \<Rightarrow> error + tensor" where
  "batch_norm1d c t =
     (if channels t \<noteq> c then Inl ShapeError
      else Inr (t\<lparr>contents := BatchNorm c (contents t)\<rparr>))"

definition leaky_relu :: "tensor \<Rightarrow> tensor" where
  "leaky_relu t = t\<lparr>contents := LeakyReLU (contents t)\<rparr>"

definition tanh_t :: "tensor \<Rightarrow> tensor" where
  "tanh_t t = t\<lparr>contents := Tanh (contents t)\<rparr>"

text \<open>\<^verbatim>\<open>t[:, :, ::2]\<close> keeps the samples at positions 0, 2, 4, ...\<close>

definition every_second :: "tensor \<Rightarrow> tensor" where
  "every_second t = t\<lparr>len := (len t + 1) div 2, contents := EverySecond (contents t)\<rparr>"

text \<open>\<^verbatim>\<open>F.interpolate(t, scale_factor=sf, mode="linear", align_corners=True)\<close>.\<close>

definition interpolate :: "tensor \<Rightarrow> nat \<Rightarrow> error + tensor" where
  "interpolate t sf =
     (if len t = 0 \<or> len t * sf = 0 then Inl ShapeError
      else Inr (t\<lparr>len := len t * sf, contents := Interpolate sf (contents t)\<rparr>))"

text \<open>\<^verbatim>\<open>torch.cat([a, b], dim=1)\<close>: all dimensions but the channels must agree.\<close>

definition cat :: "tensor \<Rightarrow> tensor \<Rightarrow> error + tensor" where
  "cat a b =
     (if batch a = batch b \<and> len a = len b
      then Inr \<lparr>batch = batch a, channels = channels a + channels b, len = len a,
                contents = Cat (contents a) (contents b)\<rparr>
      else Inl ShapeError)"

text \<open>
  Tensors live in a store, a list of buffers addressed by position. A reference is a
  whole buffer or the strided view \<^verbatim>\<open>[:, :, ::2]\<close> of one, which shares the buffer.
  Every primitive but the in-place activation puts its result into a new buffer.
\<close>

type_synonym store = "tensor list"

datatype ref = Whole nat | EveryOther nat

fun address :: "ref \<Rightarrow> nat" where
  "address (Whole a) = a"
| "address (EveryOther a) = a"

fun read :: "store \<Rightarrow> ref \<Rightarrow> tensor" where
  "read h (Whole a) = h ! a"
| "read h (EveryOther a) = every_second (h ! a)"

definition alloc :: "store \<Rightarrow> tensor \<Rightarrow> nat \<times> store" where
  "alloc h t = (length h, h @ [t])"

text \<open>\<^verbatim>\<open>nn.LeakyReLU(inplace=True)\<close> overwrites the buffer it is given.\<close>

definition leaky_relu_inplace :: "store \<Rightarrow> nat \<Rightarrow> store" where
  "leaky_relu_inplace h a = h[a := leaky_relu (h ! a)]"

subsection \<open>Running a layer\<close>

text \<open>
  A computation takes the store and returns its outcome, an exception or a value,
  together with the store as it has left it: an exception does not undo what was
  written before it.

  \<^verbatim>\<open>self.main(ipt)\<close> for the \<^verbatim>\<open>nn.Sequential\<close> of a layer: convolution,
  normalisation, activation. The value is the address of the buffer that holds the
  layer's output.
\<close>

definition Sequential_forward ::
  "ConvBlock \<Rightarrow> ref \<Rightarrow> store \<Rightarrow> (error + nat) \<times> store" where
  "Sequential_forward b x h =
     (case conv1d (conv b) (read h x) of
        Inl e \<Rightarrow> (Inl e, h)
      | Inr t1 \<Rightarrow>
          (case alloc h t1 of (a1, h1) \<Rightarrow>
             (case batch_norm1d (num_features b) (h1 ! a1) of
                Inl e \<Rightarrow> (Inl e, h1)
              | Inr t2 \<Rightarrow>
                  (case alloc h1 t2 of (a2, h2) \<Rightarrow>
                     if inplace b then (Inr a2, leaky_relu_inplace h2 a2)
                     else (case alloc h2 (leaky_relu (h2 ! a2)) of
                             (a3, h3) \<Rightarrow> (Inr a3, h3))))))"

subsection \<open>The forward pass: \<^verbatim>\<open>UNet.forward\<close>\<close>

text \<open>
  Lines 126--130. \<open>x\<close> is the variable \<^verbatim>\<open>o\<close> of the source, \<open>tmp\<close> the list of skip
  tensors. After the layer has run, \<^verbatim>\<open>o\<close> is rebound to a strided view of the tensor
  that was just appended to \<^verbatim>\<open>tmp\<close>.
\<close>

fun encoder_loop ::
  "UNet \<Rightarrow> nat list \<Rightarrow> ref \<Rightarrow> nat list \<Rightarrow> store \<Rightarrow> (error + ref \<times> nat list) \<times> store" where
  "encoder_loop net [] x tmp h = (Inr (x, tmp), h)"
| "encoder_loop net (i # is) x tmp h =
     (if i < length (encoder net) then
        (case Sequential_forward (encoder net ! i) x h of
           (Inl e, h') \<Rightarrow> (Inl e, h')
         | (Inr a, h') \<Rightarrow> encoder_loop net is (EveryOther a) (tmp @ [a]) h')
      else (Inl IndexError, h))"

text \<open>
  Lines 135--140: interpolate, concatenate with \<^verbatim>\<open>tmp[self.n_layers - i - 1]\<close>, run
  decoder layer \<open>i\<close>. Inside the loop \<open>i < n_layers\<close>, so the subscript is not negative.
\<close>

fun decoder_loop ::
  "UNet \<Rightarrow> nat list \<Rightarrow> nat \<Rightarrow> nat list \<Rightarrow> store \<Rightarrow> (error + nat) \<times> store" where
  "decoder_loop net [] x tmp h = (Inr x, h)"
| "decoder_loop net (i # is) x tmp h =
     (case interpolate (h ! x) 2 of
        Inl e \<Rightarrow> (Inl e, h)
      | Inr t1 \<Rightarrow>
          (case alloc h t1 of (a1, h1) \<Rightarrow>
             if n_layers net - i - 1 < length tmp then
               (case cat (h1 ! a1) (h1 ! (tmp ! (n_layers net - i - 1))) of
                  Inl e \<Rightarrow> (Inl e, h1)
                | Inr t2 \<Rightarrow>
                    (case alloc h1 t2 of (a2, h2) \<Rightarrow>
                       if i < length (decoder net) then
                         (case Sequential_forward (decoder net ! i) (Whole a2) h2 of
                            (Inl e, h3) \<Rightarrow> (Inl e, h3)
                          | (Inr a3, h3) \<Rightarrow> decoder_loop net is a3 tmp h3)
                       else (Inl IndexError, h2)))
             else (Inl IndexError, h1)))"

text \<open>Lines 122--140: everything before the input is concatenated back in.\<close>

definition forward_stages :: "UNet \<Rightarrow> ref \<Rightarrow> store \<Rightarrow> (error + nat) \<times> store" where
  "forward_stages net ipt h =
     (case encoder_loop net [0..<n_layers net] ipt [] h of
        (Inl e, h1) \<Rightarrow> (Inl e, h1)
      | (Inr (x, tmp), h1) \<Rightarrow>
          (case Sequential_forward (middle net) x h1 of
             (Inl e, h2) \<Rightarrow> (Inl e, h2)
           | (Inr m, h2) \<Rightarrow> decoder_loop net [0..<n_layers net] m tmp h2))"

text \<open>Lines 142--144: the output head, a 1x1 convolution followed by \<^verbatim>\<open>nn.Tanh\<close>.\<close>

definition output_head :: "UNet \<Rightarrow> nat \<Rightarrow> ref \<Rightarrow> store \<Rightarrow> (error + nat) \<times> store" where
  "output_head net x ipt h =
     (case cat (h ! x) (read h ipt) of
        Inl e \<Rightarrow> (Inl e, h)
      | Inr t1 \<Rightarrow>
          (case alloc h t1 of (a1, h1) \<Rightarrow>
             (case conv1d (out net) (h1 ! a1) of
                Inl e \<Rightarrow> (Inl e, h1)
              | Inr t2 \<Rightarrow>
                  (case alloc h1 t2 of (a2, h2) \<Rightarrow>
                     (case alloc h2 (tanh_t (h2 ! a2)) of
                        (a3, h3) \<Rightarrow> (Inr a3, h3))))))"

definition forward :: "UNet \<Rightarrow> ref \<Rightarrow> store \<Rightarrow> (error + nat) \<times> store" where
  "forward net ipt h =
     (case forward_stages net ipt h of
        (Inl e, h') \<Rightarrow> (Inl e, h')
      | (Inr x, h') \<Rightarrow> output_head net x ipt h')"

section \<open>Notions used in the statements\<close>

text \<open>
  A well-formed dilation configuration for a network of \<open>n\<close> layers: the two lists
  have the same length, the layer indices are distinct and lie in \<open>[1, n]\<close>, and the
  rates are positive.
\<close>

definition well_formed_dilation :: "nat \<Rightarrow> DilationConfig \<Rightarrow> bool" where
  "well_formed_dilation n c \<longleftrightarrow>
     length (layers c) = length (dilated_rates c)
     \<and> distinct (layers c)
     \<and> (\<forall>l\<in>set (layers c). 1 \<le> l \<and> l \<le> n)
     \<and> (\<forall>r\<in>set (dilated_rates c). 0 < r)"

text \<open>
  Some layer \<open>i + 1\<close> of the network is listed in \<^verbatim>\<open>layers\<close> at a first position
  for which \<^verbatim>\<open>dilated_rates\<close> has no entry.
\<close>

definition unmatched_layer :: "nat \<Rightarrow> DilationConfig \<Rightarrow> bool" where
  "unmatched_layer n c \<longleftrightarrow>
     (\<exists>i\<in>set [0..<n].
        case list_index (layers c) (i + 1) of
          None \<Rightarrow> False
        | Some j \<Rightarrow> length (dilated_rates c) \<le> j)"



subsection \<open>The forward pass on tensor values\<close>

text \<open>
  The same computation without the store: each function takes and returns tensors
  instead of addresses. These functions are a proof device; the lemmas of section
  \<open>The store\<close> show that the forward pass over the store computes exactly them.
\<close>

definition Sequential_value :: "ConvBlock \<Rightarrow> tensor \<Rightarrow> error + tensor" where
  "Sequential_value b t =
     (case conv1d (conv b) t of
        Inl e \<Rightarrow> Inl e
      | Inr t1 \<Rightarrow>
          (case batch_norm1d (num_features b) t1 of
             Inl e \<Rightarrow> Inl e
           | Inr t2 \<Rightarrow> Inr (leaky_relu t2)))"






text \<open>
  The outcome of a computation with the address of its value replaced by the tensor
  stored there, and the statement that this address is a buffer of the final store
  that did not exist in the store \<open>h\<close>.
\<close>

definition outcome :: "(error + nat) \<times> store \<Rightarrow> error + tensor" where
  "outcome r = (case fst r of Inl e \<Rightarrow> Inl e | Inr a \<Rightarrow> Inr (snd r ! a))"

definition fresh_in :: "store \<Rightarrow> (error + nat) \<times> store \<Rightarrow> bool" where
  "fresh_in h r \<longleftrightarrow> (case fst r of Inl e \<Rightarrow> True | Inr a \<Rightarrow> length h \<le> a \<and> a < length (snd r))"

subsection \<open>Padding of the assembled layers\<close>









subsection \<open>A small network\<close>

text \<open>
  Two layers of width 4 with the default kernel sizes and no dilated layer, and a
  single-channel input of \<open>L\<close> samples in a batch of one.
\<close>

definition no_dilation :: DilationConfig where
  "no_dilation = \<lparr>layers = [], dilated_rates = []\<rparr>"

definition small_net :: UNet where
  "small_net = projr (UNet_init 2 4 15 5 (Some no_dilation) (Some no_dilation))"

definition waveform :: "nat \<Rightarrow> tensor" where
  "waveform L = \<lparr>batch = 1, channels = 1, len = L, contents = Given 0\<rparr>"

section \<open>Assembly\<close>

subsection \<open>List lookup and the construction loops\<close>

lemma list_index_None: "list_index xs v = None \<longleftrightarrow> v \<notin> set xs"
  by (induction xs) auto

lemma list_index_Some:
  "list_index xs v = Some j \<Longrightarrow> j < length xs \<and> xs ! j = v"
  by (induction xs arbitrary: j) (auto split: if_splits)

lemma list_index_distinct:
  "distinct xs \<Longrightarrow> j < length xs \<Longrightarrow> list_index xs (xs ! j) = Some j"
proof (induction xs arbitrary: j)
  case Nil
  then show ?case by simp
next
  case (Cons x xs)
  show ?case
  proof (cases j)
    case 0
    then show ?thesis by simp
  next
    case (Suc k)
    with Cons.prems have "k < length xs" "xs ! k \<noteq> x" "distinct xs"
      by auto
    with Cons.IH [of k] Suc show ?thesis by auto
  qed
qed

lemma module_list_Inr:
  "module_list f js = Inr bs \<Longrightarrow>
     length bs = length js \<and> (\<forall>k<length js. f (js ! k) = Inr (bs ! k))"
proof (induction js arbitrary: bs)
  case Nil
  then show ?case by simp
next
  case (Cons j js)
  from Cons.prems obtain b bs' where
    b: "f j = Inr b" and bs': "module_list f js = Inr bs'" and bs: "bs = b # bs'"
    by (auto split: sum.splits)
  from Cons.IH [OF bs'] b bs show ?case
    by (auto simp: nth_Cons split: nat.splits)
qed

lemma module_list_Inl:
  "module_list f js = Inl e \<Longrightarrow> \<exists>j\<in>set js. f j = Inl e"
  by (induction js) (auto split: sum.splits)

lemma module_list_total:
  "(\<forall>j\<in>set js. \<not> isl (f j)) \<Longrightarrow> \<not> isl (module_list f js)"
  by (induction js) (auto split: sum.splits)

lemma module_list_first_error:
  "f j = Inl e \<Longrightarrow> j \<in> set js \<Longrightarrow> isl (module_list f js)"
  by (induction js) (auto split: sum.splits)

lemma length_encoder_in: "1 \<le> n \<Longrightarrow> length (encoder_in_channels_list n ci) = n"
  by (simp add: encoder_in_channels_list_def)

lemma length_encoder_out: "length (encoder_out_channels_list n ci) = n"
  by (simp add: encoder_out_channels_list_def)

lemma length_decoder_in: "1 \<le> n \<Longrightarrow> length (decoder_in_channels_list n ci) = n"
  by (simp add: decoder_in_channels_list_def)

lemma length_decoder_out: "length (decoder_out_channels_list n ci) = n"
  by (simp add: decoder_out_channels_list_def length_encoder_out)

lemma encoder_in_nth:
  "i < n \<Longrightarrow> encoder_in_channels_list n ci ! i = (if i = 0 then 1 else i * ci)"
  by (auto simp: encoder_in_channels_list_def nth_Cons split: nat.splits)

lemma encoder_out_nth: "i < n \<Longrightarrow> encoder_out_channels_list n ci ! i = (i + 1) * ci"
  unfolding encoder_out_channels_list_def
  by (simp add: nth_map_upt del: upt_Suc)

lemma decoder_out_nth:
  assumes "i < n"
  shows "decoder_out_channels_list n ci ! i = (n - i) * ci"
proof -
  have "n - i = Suc (n - Suc i)" using assms by simp
  then show ?thesis
    unfolding decoder_out_channels_list_def using assms
    by (simp add: rev_nth length_encoder_out encoder_out_nth)
qed

lemma decoder_in_nth:
  assumes "i < n"
  shows "decoder_in_channels_list n ci ! i =
           (if i = 0 then 2 * n * ci else (2 * (n - i) + 1) * ci)"
proof -
  let ?xs = "map (\<lambda>i. (2 * i + 1) * ci) [1..<n] @ [2 * n * ci]"
  have len: "length ?xs = n" using assms by simp
  have "rev ?xs ! i = ?xs ! (length ?xs - Suc i)"
    using assms len by (intro rev_nth) simp
  then have "decoder_in_channels_list n ci ! i = ?xs ! (n - Suc i)"
    unfolding decoder_in_channels_list_def using len by simp
  also have "\<dots> = (if i = 0 then 2 * n * ci else (2 * (n - i) + 1) * ci)"
  proof (cases "i = 0")
    case True
    then show ?thesis using assms by (simp add: nth_append)
  next
    case False
    then have lt: "n - Suc i < n - 1" using assms by simp
    have "Suc (n - Suc i) = n - i" using assms by simp
    then have "(2 * Suc (n - Suc i) + 1) * ci = (2 * (n - i) + 1) * ci" by simp
    with lt show ?thesis using False by (simp add: nth_append)
  qed
  finally show ?thesis .
qed

text \<open>
  The declared input width of a decoder stage is the width of what is concatenated
  for it: the output of the stage before (of the bottleneck for stage 0) and the skip
  tensor of the mirrored encoder stage.
\<close>

lemma decoder_in_is_concatenation:
  assumes "i < n"
  shows "decoder_in_channels_list n ci ! i =
           (if i = 0 then n * ci else decoder_out_channels_list n ci ! (i - 1))
           + encoder_out_channels_list n ci ! (n - 1 - i)"
proof (cases "i = 0")
  case True
  with assms show ?thesis
    by (simp add: decoder_in_nth encoder_out_nth algebra_simps)
next
  case False
  with assms have "n - (i - 1) = Suc (n - i)" "Suc (n - Suc i) = n - i" by simp_all
  with assms False show ?thesis
    by (simp add: decoder_in_nth decoder_out_nth encoder_out_nth algebra_simps)
qed

subsection \<open>The channel plan\<close>

text \<open>
  Claim C2. For \<open>n_layers \<ge> 1\<close> the channel plan has \<open>n_layers\<close> entries per list;
  \<open>encoder_in\<close> is \<open>[1, ci, 2 ci, ..., (n_layers - 1) ci]\<close>,
  \<open>encoder_out[i] = (i + 1) ci\<close>, \<open>decoder_out\<close> is \<open>encoder_out\<close> reversed, and
  \<open>decoder_in\<close>, read from the bottleneck side, is \<open>2 n_layers ci\<close> for the deepest
  stage and \<open>(2 k + 1) ci\<close> with \<open>k = n_layers - i\<close> for stage \<open>i \<ge> 1\<close>. The width
  \<open>ci\<close> is arbitrary.
\<close>

theorem channel_plan:
  assumes "1 \<le> n"
  shows "length (encoder_in_channels_list n ci) = n
       \<and> encoder_in_channels_list n ci ! 0 = 1
       \<and> (\<forall>i. 1 \<le> i \<and> i < n \<longrightarrow> encoder_in_channels_list n ci ! i = i * ci)
       \<and> length (encoder_out_channels_list n ci) = n
       \<and> (\<forall>i<n. encoder_out_channels_list n ci ! i = (i + 1) * ci)
       \<and> decoder_out_channels_list n ci = rev (encoder_out_channels_list n ci)
       \<and> length (decoder_in_channels_list n ci) = n
       \<and> decoder_in_channels_list n ci ! 0 = 2 * n * ci
       \<and> (\<forall>i. 1 \<le> i \<and> i < n \<longrightarrow>
            decoder_in_channels_list n ci ! i = (2 * (n - i) + 1) * ci)"
  using assms
  by (simp add: length_encoder_in length_encoder_out length_decoder_in
      encoder_in_nth encoder_out_nth decoder_in_nth decoder_out_channels_list_def)

text \<open>The plan for three layers of width 4.\<close>

theorem channel_plan_witness:
  "(1::nat) \<le> 3
   \<and> encoder_in_channels_list 3 4 = [1, 4, 8]
   \<and> encoder_out_channels_list 3 4 = [4, 8, 12]
   \<and> decoder_in_channels_list 3 4 = [24, 20, 12]
   \<and> decoder_out_channels_list 3 4 = [12, 8, 4]
   \<and> decoder_in_channels_list 3 4 ! 1 = (2 * (3 - 1) + 1) * 4"
  using channel_plan [of 3 4]
  by (simp add: encoder_in_channels_list_def encoder_out_channels_list_def
      decoder_in_channels_list_def decoder_out_channels_list_def upt_rec)


subsection \<open>Dilation lookup and the errors of assembly\<close>

lemma dilated_rate_of_Some:
  "dilated_rate_of (Some c) i =
     (case list_index (layers c) (i + 1) of
        None \<Rightarrow> Inr None
      | Some j \<Rightarrow>
          if j < length (dilated_rates c) then Inr (Some (dilated_rates c ! j))
          else Inl IndexError)"
  using list_index_None [of "layers c" "i + 1"]
  by (auto simp: dilated_rate_of_def split: option.splits)

lemma encoder_layer_isl:
  "isl (encoder_layer n ci k dil i) \<longleftrightarrow> isl (dilated_rate_of dil i)"
  by (simp add: encoder_layer_def split: sum.splits)

lemma decoder_layer_isl:
  "isl (decoder_layer n ci k dil i) \<longleftrightarrow> isl (dilated_rate_of dil i)"
  by (simp add: decoder_layer_def split: sum.splits)

lemma dilated_rate_of_isl:
  "isl (dilated_rate_of (Some c) i) \<longleftrightarrow>
     (case list_index (layers c) (i + 1) of
        None \<Rightarrow> False
      | Some j \<Rightarrow> length (dilated_rates c) \<le> j)"
  by (auto simp: dilated_rate_of_Some split: option.splits)

lemma dilated_rate_of_error:
  "dilated_rate_of (Some c) i = Inl e \<Longrightarrow> e = IndexError"
  by (auto simp: dilated_rate_of_Some split: option.splits if_splits)

lemma module_list_isl:
  "isl (module_list f js) \<longleftrightarrow> (\<exists>j\<in>set js. isl (f j))"
  using module_list_total [of js f] module_list_first_error [of f _ _ js]
  by (metis isl_def)

lemma UNet_init_isl:
  "isl (UNet_init n ci k_enc k_dec dil_enc dil_dec) \<longleftrightarrow>
     (\<exists>i<n. isl (dilated_rate_of dil_enc i)) \<or> (\<exists>i<n. isl (dilated_rate_of dil_dec i))"
proof -
  have "isl (UNet_init n ci k_enc k_dec dil_enc dil_dec) \<longleftrightarrow>
          isl (module_list (encoder_layer n ci k_enc dil_enc) [0..<n])
          \<or> isl (module_list (decoder_layer n ci k_dec dil_dec) [0..<n])"
    by (simp add: UNet_init_def split: sum.splits)
  then show ?thesis
    by (simp add: module_list_isl encoder_layer_isl decoder_layer_isl Bex_def)
qed

lemma UNet_init_Inr:
  assumes "UNet_init n ci k_enc k_dec dil_enc dil_dec = Inr net"
  shows "n_layers net = n" "channels_interval net = ci"
    "length (encoder net) = n" "length (decoder net) = n"
    "\<And>i. i < n \<Longrightarrow> encoder_layer n ci k_enc dil_enc i = Inr (encoder net ! i)"
    "\<And>i. i < n \<Longrightarrow> decoder_layer n ci k_dec dil_dec i = Inr (decoder net ! i)"
    "middle net = \<lparr>conv = \<lparr>in_channels = n * ci, out_channels = n * ci, kernel_size = 15,
                            stride = 1, padding = 7, dilation = 1\<rparr>,
                    num_features = n * ci, inplace = True\<rparr>"
    "out net = \<lparr>in_channels = 1 + ci, out_channels = 1, kernel_size = 1,
                 stride = 1, padding = 0, dilation = 1\<rparr>"
proof -
  from assms obtain enc dec where
    enc: "module_list (encoder_layer n ci k_enc dil_enc) [0..<n] = Inr enc" and
    dec: "module_list (decoder_layer n ci k_dec dil_dec) [0..<n] = Inr dec" and
    net: "net = \<lparr>n_layers = n, channels_interval = ci, encoder = enc,
                 middle = \<lparr>conv = \<lparr>in_channels = n * ci, out_channels = n * ci,
                                   kernel_size = 15, stride = 1, padding = 7,
                                   dilation = 1\<rparr>,
                           num_features = n * ci, inplace = True\<rparr>,
                 decoder = dec,
                 out = \<lparr>in_channels = 1 + ci, out_channels = 1, kernel_size = 1,
                        stride = 1, padding = 0, dilation = 1\<rparr>\<rparr>"
    by (auto simp: UNet_init_def split: sum.splits)
  from net show "n_layers net = n" "channels_interval net = ci" by simp_all
  from net show "middle net = \<lparr>conv = \<lparr>in_channels = n * ci, out_channels = n * ci,
      kernel_size = 15, stride = 1, padding = 7, dilation = 1\<rparr>,
      num_features = n * ci, inplace = True\<rparr>" by simp
  from net show "out net = \<lparr>in_channels = 1 + ci, out_channels = 1, kernel_size = 1,
                 stride = 1, padding = 0, dilation = 1\<rparr>" by simp
  from module_list_Inr [OF enc] net show "length (encoder net) = n" by simp
  from module_list_Inr [OF dec] net show "length (decoder net) = n" by simp
  show "encoder_layer n ci k_enc dil_enc i = Inr (encoder net ! i)" if "i < n" for i
    using module_list_Inr [OF enc] net that by simp
  show "decoder_layer n ci k_dec dil_dec i = Inr (decoder net ! i)" if "i < n" for i
    using module_list_Inr [OF dec] net that by simp
qed

subsection \<open>Absent dilation configurations\<close>

lemma UNet_init_encoder_None:
  "1 \<le> n \<Longrightarrow> UNet_init n ci k_enc k_dec None dil_dec = Inl TypeError"
  by (simp add: UNet_init_def upt_rec [of 0 n] encoder_layer_def dilated_rate_of_def)

lemma UNet_init_decoder_None:
  assumes "1 \<le> n" and "\<not> isl (module_list (encoder_layer n ci k_enc dil_enc) [0..<n])"
  shows "UNet_init n ci k_enc k_dec dil_enc None = Inl TypeError"
  using assms
  by (cases "module_list (encoder_layer n ci k_enc dil_enc) [0..<n]")
    (simp_all add: UNet_init_def upt_rec [of 0 n] decoder_layer_def dilated_rate_of_def)

text \<open>
  Claim C4 says that assembly succeeds with dilation 1 everywhere when a dilation
  configuration is absent. The constructor called with its own defaults, which leave
  both configurations \<^verbatim>\<open>None\<close>, fails in the first iteration of the encoder loop:
  line 61 subscripts \<^verbatim>\<open>None\<close>.
\<close>

theorem UNet_init_defaults:
  "UNet_init 12 24 15 5 None None = Inl TypeError"
  by (simp add: UNet_init_def upt_rec [of 0 12] encoder_layer_def dilated_rate_of_def)

subsection \<open>Dilation of the assembled layers\<close>

lemma dilated_rate_listed:
  assumes "well_formed_dilation n c" and "j < length (layers c)"
  shows "dilated_rate_of (Some c) (layers c ! j - 1) = Inr (Some (dilated_rates c ! j))"
    and "rate_or_1 (Some (dilated_rates c ! j)) = dilated_rates c ! j"
proof -
  from assms have pos: "1 \<le> layers c ! j" and d: "distinct (layers c)"
    and len: "j < length (dilated_rates c)"
    by (auto simp: well_formed_dilation_def)
  from pos have "layers c ! j - 1 + 1 = layers c ! j" by simp
  with list_index_distinct [OF d assms(2)] len
  show "dilated_rate_of (Some c) (layers c ! j - 1) = Inr (Some (dilated_rates c ! j))"
    by (simp add: dilated_rate_of_Some)
  from assms len have "0 < dilated_rates c ! j"
    by (auto simp: well_formed_dilation_def)
  then show "rate_or_1 (Some (dilated_rates c ! j)) = dilated_rates c ! j"
    by (simp add: rate_or_1_def)
qed

lemma dilated_rate_unlisted:
  "i + 1 \<notin> set (layers c) \<Longrightarrow> dilated_rate_of (Some c) i = Inr None"
  by (simp add: dilated_rate_of_def)

lemma well_formed_no_error:
  assumes "well_formed_dilation n c"
  shows "\<not> isl (dilated_rate_of (Some c) i)"
proof (cases "list_index (layers c) (i + 1)")
  case None
  then show ?thesis by (simp add: dilated_rate_of_Some)
next
  case (Some j)
  from list_index_Some [OF Some] assms have "j < length (dilated_rates c)"
    by (simp add: well_formed_dilation_def)
  with Some show ?thesis by (simp add: dilated_rate_of_Some)
qed

lemma encoder_layer_dilation:
  "encoder_layer n ci k dil i = Inr b \<Longrightarrow>
     \<exists>r. dilated_rate_of dil i = Inr r \<and> dilation (conv b) = rate_or_1 r"
  by (auto simp: encoder_layer_def DownSamplingLayer_def split: sum.splits)

lemma decoder_layer_dilation:
  "decoder_layer n ci k dil i = Inr b \<Longrightarrow>
     \<exists>r. dilated_rate_of dil i = Inr r \<and> dilation (conv b) = rate_or_1 r"
  by (auto simp: decoder_layer_def UpSamplingLayer_def split: sum.splits)

text \<open>
  Claim C3. For well-formed encoder and decoder configurations and a layer index
  \<open>i\<close> in \<open>[1, n_layers]\<close>, assembly succeeds and layer \<open>i\<close> of the encoder (of the
  decoder) is built with dilation \<open>dilated_rates[j]\<close> when \<open>layers[j] = i\<close> in the
  encoder (decoder) configuration, and with dilation 1 when \<open>i\<close> is not listed.
\<close>

theorem dilation_resolved:
  assumes enc: "well_formed_dilation n c_enc"
    and dec: "well_formed_dilation n c_dec"
    and i: "1 \<le> i" "i \<le> n"
  shows "\<exists>net. UNet_init n ci k_enc k_dec (Some c_enc) (Some c_dec) = Inr net
           \<and> (\<forall>j<length (layers c_enc). layers c_enc ! j = i \<longrightarrow>
                dilation (conv (encoder net ! (i - 1))) = dilated_rates c_enc ! j)
           \<and> (i \<notin> set (layers c_enc) \<longrightarrow> dilation (conv (encoder net ! (i - 1))) = 1)
           \<and> (\<forall>j<length (layers c_dec). layers c_dec ! j = i \<longrightarrow>
                dilation (conv (decoder net ! (i - 1))) = dilated_rates c_dec ! j)
           \<and> (i \<notin> set (layers c_dec) \<longrightarrow> dilation (conv (decoder net ! (i - 1))) = 1)"
proof -
  have "\<not> isl (UNet_init n ci k_enc k_dec (Some c_enc) (Some c_dec))"
    using well_formed_no_error [OF enc] well_formed_no_error [OF dec]
    by (simp add: UNet_init_isl)
  then obtain net where
    net: "UNet_init n ci k_enc k_dec (Some c_enc) (Some c_dec) = Inr net"
    by (cases "UNet_init n ci k_enc k_dec (Some c_enc) (Some c_dec)") auto
  from i have lt: "i - 1 < n" and suc: "i - 1 + 1 = i" by simp_all
  from encoder_layer_dilation [OF UNet_init_Inr(5) [OF net lt]] obtain r where
    r: "dilated_rate_of (Some c_enc) (i - 1) = Inr r"
       "dilation (conv (encoder net ! (i - 1))) = rate_or_1 r"
    by blast
  from decoder_layer_dilation [OF UNet_init_Inr(6) [OF net lt]] obtain q where
    q: "dilated_rate_of (Some c_dec) (i - 1) = Inr q"
       "dilation (conv (decoder net ! (i - 1))) = rate_or_1 q"
    by blast
  have "dilation (conv (encoder net ! (i - 1))) = dilated_rates c_enc ! j"
    if "j < length (layers c_enc)" "layers c_enc ! j = i" for j
    using dilated_rate_listed [OF enc that(1)] that(2) r by simp
  moreover have "dilation (conv (encoder net ! (i - 1))) = 1" if "i \<notin> set (layers c_enc)"
    using dilated_rate_unlisted [of "i - 1" c_enc] that suc r by (simp add: rate_or_1_def)
  moreover have "dilation (conv (decoder net ! (i - 1))) = dilated_rates c_dec ! j"
    if "j < length (layers c_dec)" "layers c_dec ! j = i" for j
    using dilated_rate_listed [OF dec that(1)] that(2) q by simp
  moreover have "dilation (conv (decoder net ! (i - 1))) = 1" if "i \<notin> set (layers c_dec)"
    using dilated_rate_unlisted [of "i - 1" c_dec] that suc q by (simp add: rate_or_1_def)
  ultimately show ?thesis using net by blast
qed


text \<open>Three layers, the encoder dilated at layer 2, the decoder at layers 1 and 3.\<close>

theorem dilation_resolved_witness:
  "well_formed_dilation 3 \<lparr>layers = [2], dilated_rates = [3]\<rparr>
   \<and> well_formed_dilation 3 \<lparr>layers = [1, 3], dilated_rates = [2, 4]\<rparr>
   \<and> (1::nat) \<le> 2 \<and> (2::nat) \<le> 3
   \<and> \<not> isl (UNet_init 3 4 15 5 (Some \<lparr>layers = [2], dilated_rates = [3]\<rparr>)
               (Some \<lparr>layers = [1, 3], dilated_rates = [2, 4]\<rparr>))
   \<and> dilation (conv (encoder (projr (UNet_init 3 4 15 5
          (Some \<lparr>layers = [2], dilated_rates = [3]\<rparr>)
          (Some \<lparr>layers = [1, 3], dilated_rates = [2, 4]\<rparr>))) ! (2 - 1))) = 3
   \<and> dilation (conv (decoder (projr (UNet_init 3 4 15 5
          (Some \<lparr>layers = [2], dilated_rates = [3]\<rparr>)
          (Some \<lparr>layers = [1, 3], dilated_rates = [2, 4]\<rparr>))) ! (2 - 1))) = 1"
proof -
  have wf: "well_formed_dilation 3 \<lparr>layers = [2], dilated_rates = [3]\<rparr>"
    "well_formed_dilation 3 \<lparr>layers = [1, 3], dilated_rates = [2, 4]\<rparr>"
    by (simp_all add: well_formed_dilation_def)
  from dilation_resolved [OF wf, of 2 4 15 5] wf show ?thesis
    by auto
qed

subsection \<open>Malformed dilation configurations\<close>

text \<open>
  Claim C5 says that assembly fails whenever a dilation configuration has lists of
  different lengths, an index outside \<open>[1, n_layers]\<close> or a duplicate index. The
  constructor validates nothing: with two layers it accepts an encoder configuration
  whose rate list is longer than its layer list, and a decoder configuration with the
  out-of-range index 5 and the index 1 twice.
\<close>

theorem malformed_dilation_accepted:
  "\<not> isl (UNet_init 2 24 15 5
            (Some \<lparr>layers = [1, 2], dilated_rates = [3, 4, 5]\<rparr>)
            (Some \<lparr>layers = [5, 1, 1], dilated_rates = [2, 3, 4]\<rparr>))"
  by (simp add: UNet_init_isl dilated_rate_of_isl less_Suc_eq numeral_2_eq_2)

lemma unmatched_layer_iff:
  "unmatched_layer n c \<longleftrightarrow> (\<exists>i<n. isl (dilated_rate_of (Some c) i))"
  by (auto simp: unmatched_layer_def dilated_rate_of_isl)

lemma UNet_init_error:
  assumes "UNet_init n ci k_enc k_dec (Some c_enc) (Some c_dec) = Inl e"
  shows "e = IndexError"
proof (cases "module_list (encoder_layer n ci k_enc (Some c_enc)) [0..<n]")
  case (Inl e')
  with assms have "e' = e" by (simp add: UNet_init_def)
  with module_list_Inl [OF Inl] obtain j where
    "encoder_layer n ci k_enc (Some c_enc) j = Inl e" by blast
  then have "dilated_rate_of (Some c_enc) j = Inl e"
    by (simp add: encoder_layer_def split: sum.splits)
  then show ?thesis by (rule dilated_rate_of_error)
next
  case (Inr enc)
  with assms have "module_list (decoder_layer n ci k_dec (Some c_dec)) [0..<n] = Inl e"
    by (simp add: UNet_init_def split: sum.splits)
  from module_list_Inl [OF this] obtain j where
    "decoder_layer n ci k_dec (Some c_dec) j = Inl e" by blast
  then have "dilated_rate_of (Some c_dec) j = Inl e"
    by (simp add: decoder_layer_def split: sum.splits)
  then show ?thesis by (rule dilated_rate_of_error)
qed

text \<open>
  Claim C5, amended. With both configurations present, assembly fails exactly when
  the encoder or the decoder configuration lists some layer of the network at a first
  position that has no entry in \<^verbatim>\<open>dilated_rates\<close>; the error is then the
  \<^verbatim>\<open>IndexError\<close> of line 63 or 99 and no network is built.
\<close>

theorem assembly_error_iff:
  "(UNet_init n ci k_enc k_dec (Some c_enc) (Some c_dec) = Inl IndexError
      \<longleftrightarrow> unmatched_layer n c_enc \<or> unmatched_layer n c_dec)
   \<and> (\<not> isl (UNet_init n ci k_enc k_dec (Some c_enc) (Some c_dec))
      \<longleftrightarrow> \<not> (unmatched_layer n c_enc \<or> unmatched_layer n c_dec))"
proof -
  have "isl (UNet_init n ci k_enc k_dec (Some c_enc) (Some c_dec))
          \<longleftrightarrow> unmatched_layer n c_enc \<or> unmatched_layer n c_dec"
    by (simp add: UNet_init_isl unmatched_layer_iff)
  moreover have "isl (UNet_init n ci k_enc k_dec (Some c_enc) (Some c_dec))
          \<longleftrightarrow> UNet_init n ci k_enc k_dec (Some c_enc) (Some c_dec) = Inl IndexError"
    using UNet_init_error [of n ci k_enc k_dec c_enc c_dec]
    by (cases "UNet_init n ci k_enc k_dec (Some c_enc) (Some c_dec)") auto
  ultimately show ?thesis by simp
qed

text \<open>
  \<^verbatim>\<open>{"layers": [1, 2], "dilated_rates": [3]}\<close> makes assembly fail with two layers,
  and is accepted with one layer, where layer 2 is never looked up.
\<close>

theorem assembly_error_iff_witness:
  "unmatched_layer 2 \<lparr>layers = [1, 2], dilated_rates = [3]\<rparr>
   \<and> UNet_init 2 24 15 5 (Some \<lparr>layers = [1, 2], dilated_rates = [3]\<rparr>)
        (Some \<lparr>layers = [], dilated_rates = []\<rparr>) = Inl IndexError
   \<and> \<not> unmatched_layer 1 \<lparr>layers = [1, 2], dilated_rates = [3]\<rparr>
   \<and> \<not> unmatched_layer 1 \<lparr>layers = [], dilated_rates = []\<rparr>
   \<and> \<not> isl (UNet_init 1 24 15 5 (Some \<lparr>layers = [1, 2], dilated_rates = [3]\<rparr>)
        (Some \<lparr>layers = [], dilated_rates = []\<rparr>))"
proof -
  have a: "unmatched_layer 2 \<lparr>layers = [1, 2], dilated_rates = [3]\<rparr>"
    by code_simp
  have b: "\<not> unmatched_layer 1 \<lparr>layers = [1, 2], dilated_rates = [3]\<rparr>"
    "\<not> unmatched_layer 1 \<lparr>layers = [], dilated_rates = []\<rparr>"
    by code_simp+
  from a b
    assembly_error_iff [of 2 24 15 5 "\<lparr>layers = [1, 2], dilated_rates = [3]\<rparr>"
      "\<lparr>layers = [], dilated_rates = []\<rparr>"]
    assembly_error_iff [of 1 24 15 5 "\<lparr>layers = [1, 2], dilated_rates = [3]\<rparr>"
      "\<lparr>layers = [], dilated_rates = []\<rparr>"]
  show ?thesis by simp
qed

lemma unmatched_layer_example:
  "2 \<le> n \<Longrightarrow> unmatched_layer n \<lparr>layers = [1, 2], dilated_rates = [3]\<rparr>"
  unfolding unmatched_layer_iff
  by (rule exI [of _ 1]) (simp add: dilated_rate_of_isl)

subsection \<open>Padding\<close>


lemma rate_or_1_zero: "rate_or_1 (Some 0) = 1"
  by (simp add: rate_or_1_def)







section \<open>The store\<close>

text \<open>
  Every step of the forward pass extends the store or overwrites a buffer that the
  same layer has just allocated, so the store before a step is a prefix of the store
  after it, and the outcome over the store is the outcome on tensor values.
\<close>

lemma prefix_nth: "prefix h h' \<Longrightarrow> a < length h \<Longrightarrow> h' ! a = h ! a"
  by (auto simp: prefix_def nth_append)

lemma prefix_read: "prefix h h' \<Longrightarrow> address x < length h \<Longrightarrow> read h' x = read h x"
  by (cases x) (simp_all add: prefix_nth)



lemma Sequential_forward_prefix: "prefix h (snd (Sequential_forward b x h))"
  by (auto simp: Sequential_forward_def alloc_def leaky_relu_inplace_def prefix_def
      list_update_append split: sum.splits)

lemma Sequential_forward_fresh: "fresh_in h (Sequential_forward b x h)"
  by (auto simp: Sequential_forward_def alloc_def leaky_relu_inplace_def fresh_in_def
      split: sum.splits)

lemma Sequential_forward_outcome:
  "outcome (Sequential_forward b x h) = Sequential_value b (read h x)"
  by (auto simp: Sequential_forward_def Sequential_value_def outcome_def alloc_def
      leaky_relu_inplace_def nth_append split: sum.splits)


lemma Sequential_forward_cases:
  obtains (failed) e h' where "Sequential_forward b x h = (Inl e, h')" "prefix h h'"
      "Sequential_value b (read h x) = Inl e"
    | (returned) a h' where "Sequential_forward b x h = (Inr a, h')" "prefix h h'"
      "length h \<le> a" "a < length h'" "Sequential_value b (read h x) = Inr (h' ! a)"
proof (cases "Sequential_forward b x h")
  case (Pair r h')
  with Sequential_forward_prefix [of h b x] have p: "prefix h h'" by simp
  show ?thesis
  proof (cases r)
    case (Inl e)
    with Pair Sequential_forward_outcome [of b x h] p failed show ?thesis
      by (simp add: outcome_def)
  next
    case (Inr a)
    with Pair Sequential_forward_outcome [of b x h] Sequential_forward_fresh [of h b x] p
      returned
    show ?thesis by (simp add: outcome_def fresh_in_def)
  qed
qed

lemma encoder_loop_prefix: "prefix h (snd (encoder_loop net js x tmp h))"
proof (induction js arbitrary: x tmp h)
  case Nil
  then show ?case by simp
next
  case (Cons i js)
  show ?case
  proof (cases "i < length (encoder net)")
    case False
    then show ?thesis by simp
  next
    case True
    show ?thesis
    proof (cases rule: Sequential_forward_cases [of "encoder net ! i" x h])
      case (failed e h')
      with True show ?thesis by simp
    next
      case (returned a h')
      from Cons.IH [of h' "EveryOther a" "tmp @ [a]"] returned(2)
      have "prefix h (snd (encoder_loop net js (EveryOther a) (tmp @ [a]) h'))"
        by (rule prefix_order.trans [rotated])
      with True returned(1) show ?thesis by simp
    qed
  qed
qed


lemma decoder_loop_prefix: "prefix h (snd (decoder_loop net js x tmp h))"
proof (induction js arbitrary: x h)
  case Nil
  then show ?case by simp
next
  case (Cons i js)
  show ?case
  proof (cases "interpolate (h ! x) 2")
    case (Inl e)
    then show ?thesis by simp
  next
    case t1: (Inr t1)
    let ?k = "n_layers net - i - 1"
    let ?h1 = "h @ [t1]"
    have p1: "prefix h ?h1" by simp
    show ?thesis
    proof (cases "?k < length tmp")
      case False
      with t1 show ?thesis by (simp add: alloc_def)
    next
      case k: True
      show ?thesis
      proof (cases "cat (?h1 ! length h) (?h1 ! (tmp ! ?k))")
        case (Inl e)
        with t1 k show ?thesis by (simp add: alloc_def)
      next
        case t2: (Inr t2)
        let ?h2 = "?h1 @ [t2]"
        have p2: "prefix h ?h2" by simp
        show ?thesis
        proof (cases "i < length (decoder net)")
          case False
          with t1 k t2 show ?thesis by (simp add: alloc_def)
        next
          case True
          show ?thesis
          proof (cases rule: Sequential_forward_cases
              [of "decoder net ! i" "Whole (length ?h1)" ?h2])
            case (failed e h')
            from p2 failed(2) have "prefix h h'" by (rule prefix_order.trans)
            with t1 k t2 True failed(1) show ?thesis by (simp add: alloc_def)
          next
            case (returned a h')
            from p2 returned(2) have "prefix h h'" by (rule prefix_order.trans)
            from this Cons.IH [of h' a]
            have "prefix h (snd (decoder_loop net js a tmp h'))"
              by (rule prefix_order.trans)
            with t1 k t2 True returned(1) show ?thesis by (simp add: alloc_def)
          qed
        qed
      qed
    qed
  qed
qed



lemma forward_stages_prefix: "prefix h (snd (forward_stages net ipt h))"
proof (cases "encoder_loop net [0..<n_layers net] ipt [] h")
  case (Pair r h1)
  with encoder_loop_prefix [of h net "[0..<n_layers net]" ipt "[]"]
  have p1: "prefix h h1" by simp
  show ?thesis
  proof (cases r)
    case (Inl e)
    with Pair p1 show ?thesis by (simp add: forward_stages_def)
  next
    case (Inr xt)
    obtain x tmp where xt: "xt = (x, tmp)" by (cases xt)
    show ?thesis
    proof (cases rule: Sequential_forward_cases [of "middle net" x h1])
      case (failed e h2)
      from p1 failed(2) have "prefix h h2" by (rule prefix_order.trans)
      with Pair Inr xt failed(1) show ?thesis by (simp add: forward_stages_def)
    next
      case (returned m h2)
      from p1 returned(2) have "prefix h h2" by (rule prefix_order.trans)
      from this decoder_loop_prefix [of h2 net "[0..<n_layers net]" m tmp]
      have "prefix h (snd (decoder_loop net [0..<n_layers net] m tmp h2))"
        by (rule prefix_order.trans)
      with Pair Inr xt returned(1) show ?thesis by (simp add: forward_stages_def)
    qed
  qed
qed


lemma output_head_prefix: "prefix h (snd (output_head net x ipt h))"
  by (auto simp: output_head_def alloc_def prefix_def split: sum.splits)



lemma forward_prefix: "prefix h (snd (forward net ipt h))"
proof (cases "forward_stages net ipt h")
  case (Pair r h1)
  with forward_stages_prefix [of h net ipt] have p1: "prefix h h1" by simp
  show ?thesis
  proof (cases r)
    case (Inl e)
    with Pair p1 show ?thesis by (simp add: forward_def)
  next
    case (Inr x)
    from p1 output_head_prefix [of h1 net x ipt]
    have "prefix h (snd (output_head net x ipt h1))" by (rule prefix_order.trans)
    with Pair Inr show ?thesis by (simp add: forward_def)
  qed
qed


section \<open>Shapes\<close>

subsection \<open>Layers\<close>


text \<open>
  When \<open>dilation * (kernel_size - 1)\<close> is odd, no symmetric padding makes a
  convolution of stride 1 return the length it was given.
\<close>

lemma conv1d_odd_never_same:
  assumes "stride c = 1" and "odd (dilation c * (kernel_size c - 1))"
    and "conv1d c t = Inr t'"
  shows "len t' \<noteq> len t"
proof
  assume eq: "len t' = len t"
  let ?m = "dilation c * (kernel_size c - 1)"
  from assms(3) have ok: "?m + 1 \<le> len t + 2 * padding c"
    and "len t' = (len t + 2 * padding c - ?m - 1) div stride c + 1"
    by (auto simp: conv1d_def split: if_splits)
  with assms(1) eq have "len t = len t + 2 * padding c - ?m" by simp
  with ok have "2 * padding c = ?m" by simp
  then have "even ?m" by (metis dvd_triv_left)
  with assms(2) show False by simp
qed





subsection \<open>What assembly guarantees\<close>



subsection \<open>Encoder, bottleneck and decoder\<close>














subsection \<open>The whole forward pass\<close>















section \<open>Output shape\<close>


section \<open>Lengths that are not a multiple of \<open>2 ^ n_layers\<close>\<close>


section \<open>The small network\<close>






section \<open>The input is not written to\<close>

lemma output_head_contents:
  "fst (output_head net x ipt h) = Inr a \<Longrightarrow>
     contents (snd (output_head net x ipt h) ! a) =
       Tanh (Conv (out net) (Cat (contents (h ! x)) (contents (read h ipt))))"
  by (auto simp: output_head_def alloc_def conv1d_def cat_def tanh_t_def nth_append
      split: sum.splits if_splits)

lemma prefix_take: "prefix h h' \<Longrightarrow> take (length h) h' = h"
  by (auto simp: prefix_def)

text \<open>
  Claim C10. Whatever the network and whether the forward pass returns or raises,
  every buffer that existed before the call, and so the input, holds afterwards what
  it held before. When the decoder has finished, the input still reads as it did at
  the call; it is this tensor that is concatenated with the last decoder output, and
  the returned tensor is the output head applied to that concatenation.
\<close>

theorem forward_preserves_input:
  assumes "address ipt < length h"
  shows "take (length h) (snd (forward net ipt h)) = h
       \<and> read (snd (forward net ipt h)) ipt = read h ipt
       \<and> (\<forall>x h1. forward_stages net ipt h = (Inr x, h1) \<longrightarrow>
            read h1 ipt = read h ipt
            \<and> forward net ipt h = output_head net x ipt h1
            \<and> (\<forall>a. fst (forward net ipt h) = Inr a \<longrightarrow>
                 contents (snd (forward net ipt h) ! a) =
                   Tanh (Conv (out net)
                     (Cat (contents (h1 ! x)) (contents (read h ipt))))))"
proof (intro conjI allI impI)
  show "take (length h) (snd (forward net ipt h)) = h"
    by (rule prefix_take [OF forward_prefix])
  show "read (snd (forward net ipt h)) ipt = read h ipt"
    by (rule prefix_read [OF forward_prefix assms])
next
  fix x h1 assume st: "forward_stages net ipt h = (Inr x, h1)"
  with forward_stages_prefix [of h net ipt] have "prefix h h1" by simp
  then show input: "read h1 ipt = read h ipt" using assms by (rule prefix_read)
  show fw: "forward net ipt h = output_head net x ipt h1"
    using st by (simp add: forward_def)
  fix a assume "fst (forward net ipt h) = Inr a"
  with fw output_head_contents [of net x ipt h1 a] input
  show "contents (snd (forward net ipt h) ! a) =
          Tanh (Conv (out net) (Cat (contents (h1 ! x)) (contents (read h ipt))))"
    by simp
qed

text \<open>The small network on 16 samples: buffer 0 is the input, before and after.\<close>

theorem forward_preserves_input_witness:
  "address (Whole 0) < length [waveform 16]
   \<and> take (length [waveform 16]) (snd (forward small_net (Whole 0) [waveform 16]))
       = [waveform 16]
   \<and> read (snd (forward small_net (Whole 0) [waveform 16])) (Whole 0) = waveform 16
   \<and> fst (forward_stages small_net (Whole 0) [waveform 16]) = Inr 16
   \<and> fst (forward small_net (Whole 0) [waveform 16]) = Inr 19
   \<and> contents (snd (forward small_net (Whole 0) [waveform 16]) ! 19) =
       Tanh (Conv (out small_net)
         (Cat (contents (snd (forward_stages small_net (Whole 0) [waveform 16]) ! 16))
              (Given 0)))"
proof -
  let ?h = "[waveform 16]"
  have v: "address (Whole 0) < length ?h" by simp
  have st: "fst (forward_stages small_net (Whole 0) ?h) = Inr 16"
    unfolding small_net_def by code_simp
  have fw: "fst (forward small_net (Whole 0) ?h) = Inr 19"
    unfolding small_net_def by code_simp
  from st have st': "forward_stages small_net (Whole 0) ?h =
      (Inr 16, snd (forward_stages small_net (Whole 0) ?h))"
    by (cases "forward_stages small_net (Whole 0) ?h") simp
  note T = forward_preserves_input [OF v, of small_net]
  note T3 = T [THEN conjunct2, THEN conjunct2, rule_format, OF st']
  note T4 = T3 [THEN conjunct2, THEN conjunct2, rule_format, OF fw]
  have rd: "read ?h (Whole 0) = waveform 16" "contents (waveform 16) = Given 0"
    by (simp_all add: waveform_def)
  from T [THEN conjunct1] T [THEN conjunct2, THEN conjunct1] T4 v st fw
  show ?thesis unfolding rd by (intro conjI)
qed


section \<open>Decimation\<close>









end
